theory Spec2Isabelle
  imports Complex_Main "HOL-Library.Multiset" "HOL-Library.Stream"
begin

section \<open>Data model\<close>

text \<open>
  The visual pipeline of \<^verbatim>\<open>SLAMModule\<close>: corner extraction, patch tracking, pose-delta
  estimation, landmark-map maintenance and the per-frame cycle that owns pose, trajectory
  and map. Pixel coordinates, intensities and counts are JavaScript numbers that only ever
  hold integers here and are modelled as \<open>int\<close>; metric quantities, angles and density
  thresholds are JavaScript doubles, idealised as \<open>real\<close>.
\<close>

text \<open>\<^verbatim>\<open>{x, y}\<close>: a location in the current frame.\<close>

record point =
  pt_x :: int
  pt_y :: int

text \<open>
  \<^verbatim>\<open>{x, y, score, type, depth}\<close>: a feature kept by the detector. The field \<^verbatim>\<open>type\<close> is
  the constant string \<^verbatim>\<open>"obstacle"\<close> and is left out; \<^verbatim>\<open>depth\<close> is \<^verbatim>\<open>null\<close> or a number.
\<close>

record feature =
  feat_x :: int
  feat_y :: int
  feat_score :: int
  feat_depth :: "real option"

text \<open>\<^verbatim>\<open>{prev, curr, score}\<close>: a correspondence produced by the tracker.\<close>

record match =
  m_prev :: feature
  m_curr :: point
  m_score :: int

text \<open>\<^verbatim>\<open>{dx, dy}\<close>: the per-match pixel displacement built inside \<^verbatim>\<open>estimatePose\<close>.\<close>

record displacement =
  disp_dx :: int
  disp_dy :: int

text \<open>\<^verbatim>\<open>{dx, dy, dHeading}\<close>: the pose delta.\<close>

record pose_delta =
  delta_dx :: real
  delta_dy :: real
  delta_dHeading :: real

section \<open>Frames and loops\<close>

text \<open>
  \<^verbatim>\<open>ImageData\<close>: \<^verbatim>\<open>width\<close>, \<^verbatim>\<open>height\<close> and the RGBA byte array \<^verbatim>\<open>data\<close>; the grey level
  of pixel \<open>i\<close> is \<^verbatim>\<open>data[i * 4]\<close>.
\<close>

record frame =
  fr_width :: int
  fr_height :: int
  fr_data :: "int list"

text \<open>
  \<^verbatim>\<open>data[i]\<close>: reading a typed array outside its bounds gives \<^verbatim>\<open>undefined\<close>,
  modelled as \<open>None\<close>.
\<close>

definition readData :: "'a list \<Rightarrow> int \<Rightarrow> 'a option" where
  "readData d i = (if 0 \<le> i \<and> i < int (length d) then Some (d ! nat i) else None)"

text \<open>
  The values taken by the counter of \<^verbatim>\<open>for (v = lo; v < hi; v += step)\<close>. Every such loop
  of the source steps by a positive amount.
\<close>

function forRange :: "int \<Rightarrow> int \<Rightarrow> int \<Rightarrow> int list" where
  "forRange lo hi step =
     (if 0 < step \<and> lo < hi then lo # forRange (lo + step) hi step else [])"
  by pat_completeness auto
termination
  by (relation "measure (\<lambda>(lo, hi, step). nat (hi - lo))") auto

declare forRange.simps [simp del]

section \<open>Feature detector\<close>

text \<open>
  The entry stored in the suppression grid:
  \<^verbatim>\<open>{x, y, score, brighterCount, darkerCount, depth}\<close>.
\<close>

record candidate =
  cand_x :: int
  cand_y :: int
  cand_score :: int
  cand_brighterCount :: int
  cand_darkerCount :: int
  cand_depth :: "real option"

definition threshold :: int where
  "threshold = 20"

definition gridSize :: int where
  "gridSize = 6"

definition clusterSize :: int where
  "clusterSize = 35"

definition circle :: "(int \<times> int) list" where
  "circle =
     [(-3, 0), (-3, 1), (-2, 2), (-1, 3), (0, 3), (1, 3), (2, 2), (3, 1),
      (3, 0), (3, -1), (2, -2), (1, -3), (0, -3), (-1, -3), (-2, -2), (-3, -1)]"

text \<open>
  \<^verbatim>\<open>a > b\<close> on values that may be \<^verbatim>\<open>undefined\<close>: arithmetic on \<^verbatim>\<open>undefined\<close> gives
  \<^verbatim>\<open>NaN\<close>, and every comparison with \<^verbatim>\<open>undefined\<close> or \<^verbatim>\<open>NaN\<close> is false.
\<close>

definition js_gt :: "int option \<Rightarrow> int option \<Rightarrow> bool" where
  "js_gt a b = (case (a, b) of (Some u, Some v) \<Rightarrow> v < u | _ \<Rightarrow> False)"

definition js_lt :: "int option \<Rightarrow> int option \<Rightarrow> bool" where
  "js_lt a b = (case (a, b) of (Some u, Some v) \<Rightarrow> u < v | _ \<Rightarrow> False)"

text \<open>One iteration of the loop over the ring, on \<^verbatim>\<open>(brighterCount, darkerCount)\<close>.\<close>

definition ringStep :: "frame \<Rightarrow> int \<Rightarrow> int \<Rightarrow> int \<times> int \<Rightarrow> int \<times> int \<Rightarrow> int \<times> int" where
  "ringStep fr x y off counts =
     (let centerIntensity = readData (fr_data fr) ((y * fr_width fr + x) * 4);
          checkIdx = ((y + snd off) * fr_width fr + (x + fst off)) * 4;
          intensity = readData (fr_data fr) checkIdx;
          brighterCount =
            (if js_gt intensity (map_option (\<lambda>c. c + threshold) centerIntensity)
             then fst counts + 1 else fst counts);
          darkerCount =
            (if js_lt intensity (map_option (\<lambda>c. c - threshold) centerIntensity)
             then snd counts + 1 else snd counts)
      in (brighterCount, darkerCount))"

definition ringCounts :: "frame \<Rightarrow> int \<Rightarrow> int \<Rightarrow> int \<times> int" where
  "ringCounts fr x y = fold (ringStep fr x y) circle (0, 0)"

text \<open>
  The suppression grid is an object keyed by the string \<^verbatim>\<open>`${gx}_${gy}`\<close>; the key is
  modelled by the pair \<open>(gx, gy)\<close>, and the object by an association list in insertion order,
  which is the order \<^verbatim>\<open>for (key in grid)\<close> enumerates such keys in. Assigning to a key that
  is present keeps its position.
\<close>

type_synonym grid = "((int \<times> int) \<times> candidate) list"

fun assign :: "'k \<Rightarrow> 'v \<Rightarrow> ('k \<times> 'v) list \<Rightarrow> ('k \<times> 'v) list" where
  "assign k v [] = [(k, v)]"
| "assign k v (p # ps) = (if fst p = k then (k, v) # ps else p # assign k v ps)"

text \<open>
  The depth read at the centre pixel: \<^verbatim>\<open>null\<close> unless depth data is present and the index
  is below its length.
\<close>

definition depthAt :: "real list option \<Rightarrow> int \<Rightarrow> real option" where
  "depthAt depthData centerIdx =
     (case depthData of
        None \<Rightarrow> None
      | Some dd \<Rightarrow> if centerIdx < int (length dd) then readData dd centerIdx else None)"

text \<open>The body of the two sampling loops at the sample \<open>(x, y)\<close>.\<close>

definition detectAt :: "frame \<Rightarrow> real list option \<Rightarrow> int \<Rightarrow> int \<Rightarrow> grid \<Rightarrow> grid" where
  "detectAt fr depthData y x grid =
     (let centerIdx = y * fr_width fr + x;
          counts = ringCounts fr x y;
          brighterCount = fst counts;
          darkerCount = snd counts
      in if brighterCount \<ge> 12 \<or> darkerCount \<ge> 12 then
           let score = max brighterCount darkerCount;
               gridKey = (x div gridSize, y div gridSize);
               depth = depthAt depthData centerIdx
           in (case map_of grid gridKey of
                 None \<Rightarrow>
                   assign gridKey
                     \<lparr>cand_x = x, cand_y = y, cand_score = score,
                      cand_brighterCount = brighterCount, cand_darkerCount = darkerCount,
                      cand_depth = depth\<rparr> grid
               | Some old \<Rightarrow>
                   if cand_score old < score then
                     assign gridKey
                       \<lparr>cand_x = x, cand_y = y, cand_score = score,
                        cand_brighterCount = brighterCount, cand_darkerCount = darkerCount,
                        cand_depth = depth\<rparr> grid
                   else grid)
         else grid)"

text \<open>
  \<^verbatim>\<open>for (y = 10; y < height - 10; y += 3) for (x = 10; x < width - 10; x += 3)\<close>, followed
  by the collection of the grid's values into \<^verbatim>\<open>rawFeatures\<close>.
\<close>

definition detectGrid :: "frame \<Rightarrow> real list option \<Rightarrow> grid" where
  "detectGrid fr depthData =
     fold (\<lambda>y grid. fold (detectAt fr depthData y) (forRange 10 (fr_width fr - 10) 3) grid)
       (forRange 10 (fr_height fr - 10) 3) []"

definition rawFeatures :: "frame \<Rightarrow> real list option \<Rightarrow> candidate list" where
  "rawFeatures fr depthData = map snd (detectGrid fr depthData)"

text \<open>
  \<^verbatim>\<open>clusterMap\<close>: a \<^verbatim>\<open>Map\<close> from the cluster key to the array of candidates in that cell, in
  insertion order.
\<close>

type_synonym clusterMap = "((int \<times> int) \<times> candidate list) list"

definition clusterKey :: "candidate \<Rightarrow> int \<times> int" where
  "clusterKey feat = (cand_x feat div clusterSize, cand_y feat div clusterSize)"

definition clusterAdd :: "candidate \<Rightarrow> clusterMap \<Rightarrow> clusterMap" where
  "clusterAdd feat cm =
     (let cm1 = (if map_of cm (clusterKey feat) = None then assign (clusterKey feat) [] cm else cm)
      in case map_of cm1 (clusterKey feat) of
           Some cluster \<Rightarrow> assign (clusterKey feat) (cluster @ [feat]) cm1
         | None \<Rightarrow> cm1)"

definition buildClusters :: "candidate list \<Rightarrow> clusterMap" where
  "buildClusters raw = fold clusterAdd raw []"

text \<open>
  \<^verbatim>\<open>clusterSizes[Math.floor(clusterSizes.length / 2)] || 1\<close> after the numeric sort: the
  default covers the empty array (\<^verbatim>\<open>undefined\<close>) and a zero entry.
\<close>

definition medianClusterSize :: "clusterMap \<Rightarrow> int" where
  "medianClusterSize cm =
     (let clusterSizes = sort (map (\<lambda>p. int (length (snd p))) cm)
      in case readData clusterSizes (int (length clusterSizes) div 2) of
           None \<Rightarrow> 1
         | Some v \<Rightarrow> if v = 0 then 1 else v)"

definition avgClusterSize :: "clusterMap \<Rightarrow> real" where
  "avgClusterSize cm =
     real_of_int (sum_list (map (\<lambda>p. int (length (snd p))) cm)) / real_of_int (max (int (length cm)) 1)"

definition obstacleDensityThreshold :: "clusterMap \<Rightarrow> real" where
  "obstacleDensityThreshold cm = max 2.5 (avgClusterSize cm * 1.4)"

text \<open>
  \<^verbatim>\<open>clusterMap.get(clusterKey).length\<close>. Every candidate classified has been added to the
  map before, so its key is present (lemma \<open>clusterDensity_present\<close> below); the branch for
  an absent key is never taken.
\<close>

definition clusterDensity :: "clusterMap \<Rightarrow> candidate \<Rightarrow> int" where
  "clusterDensity cm feat =
     (case map_of cm (clusterKey feat) of Some cluster \<Rightarrow> int (length cluster) | None \<Rightarrow> 0)"

text \<open>The guards of the classification, in the order of the source.\<close>

definition depthRule :: "candidate \<Rightarrow> int \<Rightarrow> bool" where
  "depthRule feat density =
     (case cand_depth feat of
        None \<Rightarrow> False
      | Some d \<Rightarrow> d < 1.8 \<or> (d > 0.5 \<and> d < 4.0 \<and> density \<ge> 2))"

definition denseClusterRule :: "clusterMap \<Rightarrow> int \<Rightarrow> bool" where
  "denseClusterRule cm density \<longleftrightarrow> real_of_int density \<ge> obstacleDensityThreshold cm * 1.1"

definition highContrastEdgeRule :: "candidate \<Rightarrow> bool" where
  "highContrastEdgeRule feat \<longleftrightarrow>
     cand_score feat \<ge> 15 \<and> \<bar>cand_brighterCount feat - cand_darkerCount feat\<bar> \<le> 2"

definition centerFrameRule :: "frame \<Rightarrow> clusterMap \<Rightarrow> candidate \<Rightarrow> int \<Rightarrow> bool" where
  "centerFrameRule fr cm feat density \<longleftrightarrow>
     real_of_int (cand_x feat) > real_of_int (fr_width fr) * 0.3 \<and>
     real_of_int (cand_x feat) < real_of_int (fr_width fr) * 0.7 \<and>
     real_of_int (cand_y feat) > real_of_int (fr_height fr) * 0.2 \<and>
     real_of_int (cand_y feat) < real_of_int (fr_height fr) * 0.8 \<and>
     real_of_int density \<ge> real_of_int (medianClusterSize cm) * 1.4"

definition strongCornerRule :: "candidate \<Rightarrow> bool" where
  "strongCornerRule feat \<longleftrightarrow> cand_score feat \<ge> 16"

definition anomalyRule :: "clusterMap \<Rightarrow> int \<Rightarrow> bool" where
  "anomalyRule cm density \<longleftrightarrow> real_of_int density > real_of_int (medianClusterSize cm) * 2.2"

text \<open>
  The flag \<^verbatim>\<open>isObstacle\<close> starts false and each guard, tried only while the flag is still
  false, sets it: the flag ends as the disjunction of the guards.
\<close>

definition isObstacle :: "frame \<Rightarrow> clusterMap \<Rightarrow> candidate \<Rightarrow> bool" where
  "isObstacle fr cm feat =
     (let density = clusterDensity cm feat
      in depthRule feat density
         \<or> denseClusterRule cm density
         \<or> highContrastEdgeRule feat
         \<or> centerFrameRule fr cm feat density
         \<or> strongCornerRule feat
         \<or> anomalyRule cm density)"

definition toFeature :: "candidate \<Rightarrow> feature" where
  "toFeature feat =
     \<lparr>feat_x = cand_x feat, feat_y = cand_y feat, feat_score = cand_score feat,
      feat_depth = cand_depth feat\<rparr>"

text \<open>\<^verbatim>\<open>extractFeatures(frameData, depthData)\<close>; \<^verbatim>\<open>slice(0, 1500)\<close> is \<open>take 1500\<close>.\<close>

definition extractFeatures :: "frame \<Rightarrow> real list option \<Rightarrow> feature list" where
  "extractFeatures fr depthData =
     (let raw = rawFeatures fr depthData;
          cm = buildClusters raw;
          features = map toFeature (filter (isObstacle fr cm) raw)
      in take 1500 features)"

section \<open>Descriptor patch and feature tracker\<close>

text \<open>
  \<^verbatim>\<open>computeDescriptor(frameData, {x, y})\<close>: the \<open>7 \<times> 7\<close> patch, row by row;
  \<^verbatim>\<open>data[idx] || 0\<close> turns an \<^verbatim>\<open>undefined\<close> read into \<open>0\<close>.
\<close>

definition computeDescriptor :: "frame \<Rightarrow> int \<Rightarrow> int \<Rightarrow> int list" where
  "computeDescriptor fr x y =
     concat (map (\<lambda>dy. map (\<lambda>dx.
        case readData (fr_data fr) (((y + dy) * fr_width fr + (x + dx)) * 4) of
          Some v \<Rightarrow> v
        | None \<Rightarrow> 0) [-3..3]) [-3..3])"

text \<open>The sum of squared differences of two descriptors of equal length.\<close>

definition ssdOf :: "int list \<Rightarrow> int list \<Rightarrow> int" where
  "ssdOf prevDesc currDesc = sum_list (map2 (\<lambda>a b. (a - b) * (a - b)) prevDesc currDesc)"

text \<open>
  One candidate offset \<open>(dx, dy)\<close> of the window search. The pair
  \<^verbatim>\<open>(bestMatch, bestScore)\<close> starts as \<^verbatim>\<open>(null, Infinity)\<close>, modelled as \<open>None\<close>, and is
  always assigned together.
\<close>

definition searchAt ::
  "frame \<Rightarrow> int list \<Rightarrow> feature \<Rightarrow> int \<Rightarrow> int \<Rightarrow> (point \<times> int) option \<Rightarrow> (point \<times> int) option" where
  "searchAt currFrame prevDesc prevFeat dy dx best =
     (let currX = feat_x prevFeat + dx;
          currY = feat_y prevFeat + dy
      in if currX < 10 \<or> currX \<ge> fr_width currFrame - 10 \<or>
            currY < 10 \<or> currY \<ge> fr_height currFrame - 10
         then best
         else
           let currDesc = computeDescriptor currFrame currX currY;
               ssd = ssdOf prevDesc currDesc
           in (case best of
                 None \<Rightarrow> Some (\<lparr>pt_x = currX, pt_y = currY\<rparr>, ssd)
               | Some b \<Rightarrow>
                   if ssd < snd b then Some (\<lparr>pt_x = currX, pt_y = currY\<rparr>, ssd) else best))"

definition searchRadius :: int where
  "searchRadius = 20"

text \<open>
  \<^verbatim>\<open>for (dy = -searchRadius; dy <= searchRadius; dy += 3)\<close> and the same for \<^verbatim>\<open>dx\<close>.
\<close>

definition searchBest :: "frame \<Rightarrow> int list \<Rightarrow> feature \<Rightarrow> (point \<times> int) option" where
  "searchBest currFrame prevDesc prevFeat =
     fold (\<lambda>dy best.
             fold (searchAt currFrame prevDesc prevFeat dy)
               (forRange (- searchRadius) (searchRadius + 1) 3) best)
       (forRange (- searchRadius) (searchRadius + 1) 3) None"

text \<open>The body of the loop over the sampled previous features.\<close>

definition trackOne :: "frame \<Rightarrow> frame \<Rightarrow> feature \<Rightarrow> match list \<Rightarrow> match list" where
  "trackOne prevFrame currFrame prevFeat matches =
     (let prevDesc = computeDescriptor prevFrame (feat_x prevFeat) (feat_y prevFeat)
      in case searchBest currFrame prevDesc prevFeat of
           None \<Rightarrow> matches
         | Some b \<Rightarrow>
             if snd b < 3000
             then matches @ [\<lparr>m_prev = prevFeat, m_curr = fst b, m_score = snd b\<rparr>]
             else matches)"

text \<open>
  \<^verbatim>\<open>sampleStep = Math.max(1, Math.floor(prevFeatures.length / 300))\<close> and the features
  visited by \<^verbatim>\<open>for (i = 0; i < prevFeatures.length; i += sampleStep)\<close>.
\<close>

definition sampleStep :: "feature list \<Rightarrow> int" where
  "sampleStep prevFeatures = max 1 (int (length prevFeatures) div 300)"

definition sampledFeatures :: "feature list \<Rightarrow> feature list" where
  "sampledFeatures prevFeatures =
     map (\<lambda>i. prevFeatures ! nat i)
       (forRange 0 (int (length prevFeatures)) (sampleStep prevFeatures))"

text \<open>\<^verbatim>\<open>trackFeatures(prevFrame, currFrame, prevFeatures)\<close>.\<close>

definition trackFeatures :: "frame \<Rightarrow> frame \<Rightarrow> feature list \<Rightarrow> match list" where
  "trackFeatures prevFrame currFrame prevFeatures =
     fold (trackOne prevFrame currFrame) (sampledFeatures prevFeatures) []"

section \<open>Motion estimator\<close>

text \<open>
  \<^verbatim>\<open>Math.atan2(y, x)\<close> on finite arguments whose zeros are positive (differences of integers),
  with values in \<open>(-\<pi>, \<pi>]\<close>.
\<close>

definition atan2 :: "real \<Rightarrow> real \<Rightarrow> real" where
  "atan2 y x =
     (if 0 < x then arctan (y / x)
      else if x < 0 then (if 0 \<le> y then arctan (y / x) + pi else arctan (y / x) - pi)
      else if 0 < y then pi / 2
      else if y < 0 then - (pi / 2)
      else 0)"

text \<open>
  The two conditional corrections applied to \<^verbatim>\<open>dAngle\<close>, in the order of the source:
  \<^verbatim>\<open>if (dAngle > Math.PI) dAngle -= 2 * Math.PI; if (dAngle < -Math.PI) dAngle += 2 * Math.PI;\<close>
\<close>

definition normalizeAngle :: "real \<Rightarrow> real" where
  "normalizeAngle dAngle0 =
     (let dAngle1 = (if dAngle0 > pi then dAngle0 - 2 * pi else dAngle0)
      in if dAngle1 < - pi then dAngle1 + 2 * pi else dAngle1)"

text \<open>The angular difference of one match about the fixed centre \<open>(320, 240)\<close>.\<close>

definition matchAngle :: "match \<Rightarrow> real" where
  "matchAngle m =
     (let angle1 = atan2 (real_of_int (feat_y (m_prev m) - 240)) (real_of_int (feat_x (m_prev m) - 320));
          angle2 = atan2 (real_of_int (pt_y (m_curr m) - 240)) (real_of_int (pt_x (m_curr m) - 320))
      in normalizeAngle (angle2 - angle1))"

text \<open>One iteration of the rotation loop on the pair \<^verbatim>\<open>(rotationSum, rotationCount)\<close>.\<close>

definition rotationStep :: "match \<Rightarrow> real \<times> nat \<Rightarrow> real \<times> nat" where
  "rotationStep m acc =
     (let dAngle = matchAngle m
      in if \<bar>dAngle\<bar> < 0.5 then (fst acc + dAngle, snd acc + 1) else acc)"

definition pixelToMeter :: real where
  "pixelToMeter = 0.001"

text \<open>
  \<^verbatim>\<open>estimatePose(matches)\<close>. \<^verbatim>\<open>Array.prototype.sort\<close> with the comparators
  \<^verbatim>\<open>a.dx - b.dx\<close> and \<^verbatim>\<open>a.dy - b.dy\<close> is a stable sort by that key; the second sort
  works on the array the first one left behind. The index \<^verbatim>\<open>Math.floor(length / 2)\<close> is in
  range because the early return has excluded fewer than five matches.
\<close>

definition estimatePose :: "match list \<Rightarrow> pose_delta" where
  "estimatePose matches =
     (if length matches < 5 then \<lparr>delta_dx = 0, delta_dy = 0, delta_dHeading = 0\<rparr>
      else
        let displacements =
              map (\<lambda>m. \<lparr>disp_dx = pt_x (m_curr m) - feat_x (m_prev m),
                         disp_dy = pt_y (m_curr m) - feat_y (m_prev m)\<rparr>) matches;
            byDx = sort_key disp_dx displacements;
            medianDx = disp_dx (byDx ! (length byDx div 2));
            byDy = sort_key disp_dy byDx;
            medianDy = disp_dy (byDy ! (length byDy div 2));
            rot = fold rotationStep matches (0, 0);
            dHeading = (if snd rot > 0 then fst rot / real (snd rot) else 0)
        in \<lparr>delta_dx = - real_of_int medianDx * pixelToMeter,
            delta_dy = real_of_int medianDy * pixelToMeter,
            delta_dHeading = dHeading\<rparr>)"

subsection \<open>What the specification calls median and normalised angle\<close>



text \<open>The representative of an angle modulo \<open>2\<pi>\<close> in the half-open interval \<open>(-\<pi>, \<pi>]\<close>.\<close>

definition wrap_pi :: "real \<Rightarrow> real" where
  "wrap_pi d = d - 2 * pi * of_int \<lceil>(d - pi) / (2 * pi)\<rceil>"



section \<open>Landmark map\<close>

text \<open>\<^verbatim>\<open>{x, y, heading}\<close>: the pose.\<close>

record pose =
  pose_x :: real
  pose_y :: real
  pose_heading :: real

text \<open>\<^verbatim>\<open>{id, x, y, quality}\<close>: a landmark.\<close>

record landmark =
  lm_id :: real
  lm_x :: real
  lm_y :: real
  lm_quality :: int

text \<open>
  The identifier of a new landmark is \<^verbatim>\<open>Date.now() + Math.random()\<close>. Both are readings of
  the environment; the model receives them as a stream of pairs (clock, random draw), one
  pair consumed by each insertion.
\<close>

type_synonym readings = "(real \<times> real) stream"

definition maxLandmarks :: nat where
  "maxLandmarks = 500"

definition matchThreshold :: real where
  "matchThreshold = 10"

definition hypot :: "real \<Rightarrow> real \<Rightarrow> real" where
  "hypot a b = sqrt (a * a + b * b)"

text \<open>
  The loop over the existing landmarks: the first landmark closer than the threshold is
  fused with the observation and the loop stops; \<open>None\<close> stands for \<^verbatim>\<open>matched = false\<close>.
\<close>

fun fuseFirst :: "real \<Rightarrow> real \<Rightarrow> landmark list \<Rightarrow> landmark list option" where
  "fuseFirst worldX worldY [] = None"
| "fuseFirst worldX worldY (lm # lms) =
     (let dist = hypot (lm_x lm - worldX) (lm_y lm - worldY)
      in if dist < matchThreshold * 0.001 then
           Some (lm\<lparr>lm_x := (lm_x lm * real_of_int (lm_quality lm) + worldX) / real_of_int (lm_quality lm + 1),
                   lm_y := (lm_y lm * real_of_int (lm_quality lm) + worldY) / real_of_int (lm_quality lm + 1),
                   lm_quality := min (lm_quality lm + 1) 10\<rparr> # lms)
         else map_option ((#) lm) (fuseFirst worldX worldY lms))"

definition worldX :: "pose \<Rightarrow> feature \<Rightarrow> real" where
  "worldX currentPose feat =
     pose_x currentPose + real_of_int (feat_x feat) * 0.001 * cos (pose_heading currentPose)"

definition worldY :: "pose \<Rightarrow> feature \<Rightarrow> real" where
  "worldY currentPose feat =
     pose_y currentPose + real_of_int (feat_x feat) * 0.001 * sin (pose_heading currentPose)"

text \<open>The body of \<^verbatim>\<open>features.forEach\<close> on the pair (landmarks so far, readings left).\<close>

definition observe :: "pose \<Rightarrow> feature \<Rightarrow> landmark list \<times> readings \<Rightarrow> landmark list \<times> readings" where
  "observe currentPose feat st =
     (case fuseFirst (worldX currentPose feat) (worldY currentPose feat) (fst st) of
        Some updated \<Rightarrow> (updated, snd st)
      | None \<Rightarrow>
          if length (fst st) < maxLandmarks
          then (fst st @ [\<lparr>lm_id = fst (shd (snd st)) + snd (shd (snd st)),
                            lm_x = worldX currentPose feat,
                            lm_y = worldY currentPose feat,
                            lm_quality = 1\<rparr>],
                stl (snd st))
          else st)"

text \<open>
  \<^verbatim>\<open>updateMap(landmarks, features, currentPose)\<close>, with the readings it draws identifiers
  from and the readings it leaves.
\<close>

definition updateMap ::
  "landmark list \<Rightarrow> feature list \<Rightarrow> pose \<Rightarrow> readings \<Rightarrow> landmark list \<times> readings" where
  "updateMap landmarks features currentPose env =
     fold (observe currentPose) features (landmarks, env)"

section \<open>The cycle and its state\<close>

text \<open>
  The refs that carry the pipeline state between cycles, and the display state set from
  them.
\<close>

record slam_state =
  poseRef :: pose
  trajectoryRef :: "(real \<times> real) list"
  landmarksRef :: "landmark list"
  prevFeaturesRef :: "feature list option"
  prevFrameRef :: "frame option"
  shownPose :: pose
  shownTrajectory :: "(real \<times> real) list"
  landmarkCount :: nat
  shownFeatures :: "feature list"

definition originPose :: pose where
  "originPose = \<lparr>pose_x = 0, pose_y = 0, pose_heading = 0\<rparr>"

definition zeroDelta :: pose_delta where
  "zeroDelta = \<lparr>delta_dx = 0, delta_dy = 0, delta_dHeading = 0\<rparr>"

text \<open>The state the component is mounted with.\<close>

definition initialState :: slam_state where
  "initialState =
     \<lparr>poseRef = originPose, trajectoryRef = [(0, 0)], landmarksRef = [],
      prevFeaturesRef = None, prevFrameRef = None,
      shownPose = originPose, shownTrajectory = [(0, 0)], landmarkCount = 0,
      shownFeatures = []\<rparr>"

text \<open>\<^verbatim>\<open>fuseIMU(visualPose, dt)\<close> returns the visual pose unchanged.\<close>

definition fuseIMU :: "pose_delta \<Rightarrow> pose_delta" where
  "fuseIMU visualPose = visualPose"

text \<open>
  The guard \<^verbatim>\<open>prevFrameRef.current && prevFeaturesRef.current\<close>: both are \<^verbatim>\<open>null\<close> or an
  object, and an object is truthy.
\<close>

definition trackingAttempted :: "slam_state \<Rightarrow> bool" where
  "trackingAttempted s \<longleftrightarrow> prevFrameRef s \<noteq> None \<and> prevFeaturesRef s \<noteq> None"

text \<open>\<^verbatim>\<open>matches\<close> as left by the tracking block of the cycle.\<close>

definition cycleMatches :: "slam_state \<Rightarrow> frame \<Rightarrow> match list" where
  "cycleMatches s grayData =
     (case prevFrameRef s of
        None \<Rightarrow> []
      | Some prevFrame \<Rightarrow>
          (case prevFeaturesRef s of
             None \<Rightarrow> []
           | Some prevFeatures \<Rightarrow> trackFeatures prevFrame grayData prevFeatures))"

text \<open>
  \<^verbatim>\<open>poseDelta\<close> as left by the tracking block: it starts as the zero delta and is replaced
  under \<^verbatim>\<open>matches.length > 5\<close>.
\<close>

definition deltaOf :: "match list \<Rightarrow> pose_delta" where
  "deltaOf matches = (if length matches > 5 then fuseIMU (estimatePose matches) else zeroDelta)"

definition cyclePoseDelta :: "slam_state \<Rightarrow> frame \<Rightarrow> pose_delta" where
  "cyclePoseDelta s grayData =
     (if trackingAttempted s then deltaOf (cycleMatches s grayData) else zeroDelta)"

text \<open>\<^verbatim>\<open>[...trajectory, p]\<close> followed by \<^verbatim>\<open>shift()\<close> when more than 500 points are held.\<close>

definition appendTrajectory :: "(real \<times> real) list \<Rightarrow> real \<times> real \<Rightarrow> (real \<times> real) list" where
  "appendTrajectory traj p =
     (let newTrajectory = traj @ [p]
      in if length newTrajectory > 500 then tl newTrajectory else newTrajectory)"

text \<open>
  \<^verbatim>\<open>processSLAMFrame\<close> on the grey frame of this cycle. \<open>ready\<close> is the conjunction
  \<^verbatim>\<open>isRunning && videoRef.current && canvasRef.current\<close>, without which the function
  returns at once. Drawing and the frame-rate display do not touch the pipeline state and
  are left out.
\<close>

definition processSLAMFrame ::
  "slam_state \<Rightarrow> bool \<Rightarrow> frame \<Rightarrow> real list option \<Rightarrow> readings \<Rightarrow> slam_state \<times> readings" where
  "processSLAMFrame s ready grayData depthData env =
     (if \<not> ready then (s, env)
      else
        let features = extractFeatures grayData depthData;
            poseDelta = cyclePoseDelta s grayData;
            newPose = \<lparr>pose_x = pose_x (poseRef s) + delta_dx poseDelta,
                       pose_y = pose_y (poseRef s) + delta_dy poseDelta,
                       pose_heading = pose_heading (poseRef s) + delta_dHeading poseDelta\<rparr>;
            newTrajectory = appendTrajectory (trajectoryRef s) (pose_x newPose, pose_y newPose);
            updated = updateMap (landmarksRef s) features newPose env
        in (\<lparr>poseRef = newPose, trajectoryRef = newTrajectory, landmarksRef = fst updated,
             prevFeaturesRef = Some features, prevFrameRef = Some grayData,
             shownPose = newPose, shownTrajectory = newTrajectory,
             landmarkCount = length (fst updated), shownFeatures = features\<rparr>,
            snd updated))"

text \<open>
  \<^verbatim>\<open>handleReset\<close>. The call \<^verbatim>\<open>setGpsPath([])\<close> clears the GPS display, which is not
  part of the pipeline state.
\<close>

definition handleReset :: "slam_state \<Rightarrow> slam_state" where
  "handleReset s =
     s\<lparr>poseRef := originPose, trajectoryRef := [(0, 0)], landmarksRef := [],
       prevFrameRef := None, prevFeaturesRef := None,
       shownPose := originPose, shownTrajectory := [(0, 0)], landmarkCount := 0,
       shownFeatures := []\<rparr>"

text \<open>
  What happens to the pipeline between mount and any later moment: frames are processed
  and the operator resets.
\<close>

datatype event = Frame bool frame "real list option" | Reset

fun applyEvent :: "event \<Rightarrow> slam_state \<times> readings \<Rightarrow> slam_state \<times> readings" where
  "applyEvent (Frame ready grayData depthData) (s, env) = processSLAMFrame s ready grayData depthData env"
| "applyEvent Reset (s, env) = (handleReset s, env)"

definition run :: "event list \<Rightarrow> readings \<Rightarrow> slam_state \<times> readings" where
  "run events env = fold applyEvent events (initialState, env)"

section \<open>Example inputs\<close>




text \<open>
  A \<open>21 \<times> 21\<close> black frame with one white pixel at \<open>(10, 10)\<close>, the only sample point
  of a frame of that size, and the feature detected there.
\<close>

definition dot_frame :: frame where
  "dot_frame = \<lparr>fr_width = 21, fr_height = 21, fr_data = (replicate 1764 0)[880 := 255]\<rparr>"

definition dot_feature :: feature where
  "dot_feature = \<lparr>feat_x = 10, feat_y = 10, feat_score = 16, feat_depth = None\<rparr>"


text \<open>Readings that repeat: the clock stands at \<open>1000\<close> and every draw is \<open>1/2\<close>.\<close>

definition example_readings :: readings where
  "example_readings = sconst (1000, 1 / 2)"

text \<open>
  Two \<open>22 \<times> 46\<close> black frames with five white pixels each: at \<open>(10, 10 + 6k)\<close> in the
  first, moved by \<open>(1, 1)\<close> to \<open>(11, 11 + 6k)\<close> in the second.
\<close>

definition frameA :: frame where
  "frameA = \<lparr>fr_width = 22, fr_height = 46,
              fr_data = (replicate 4048 0)[920 := 255, 1448 := 255, 1976 := 255, 2504 := 255, 3032 := 255]\<rparr>"

definition frameB :: frame where
  "frameB = \<lparr>fr_width = 22, fr_height = 46,
              fr_data = (replicate 4048 0)[1012 := 255, 1540 := 255, 2068 := 255, 2596 := 255, 3124 := 255]\<rparr>"

text \<open>The feature detected at a white pixel of the first frame, and its descriptor.\<close>

definition dotAt :: "int \<Rightarrow> feature" where
  "dotAt y = \<lparr>feat_x = 10, feat_y = y, feat_score = 16, feat_depth = None\<rparr>"

definition dotDesc :: "int list" where
  "dotDesc = [0,0,0,0,0,0,0, 0,0,0,0,0,0,0, 0,0,0,0,0,0,0, 0,0,0,255,0,0,0,
              0,0,0,0,0,0,0, 0,0,0,0,0,0,0, 0,0,0,0,0,0,0]"

text \<open>The five correspondences the tracker finds from the first frame to the second.\<close>

definition five_tracked :: "match list" where
  "five_tracked =
     [\<lparr>m_prev = dotAt 10, m_curr = \<lparr>pt_x = 11, pt_y = 11\<rparr>, m_score = 0\<rparr>,
      \<lparr>m_prev = dotAt 16, m_curr = \<lparr>pt_x = 11, pt_y = 11\<rparr>, m_score = 0\<rparr>,
      \<lparr>m_prev = dotAt 22, m_curr = \<lparr>pt_x = 11, pt_y = 11\<rparr>, m_score = 0\<rparr>,
      \<lparr>m_prev = dotAt 28, m_curr = \<lparr>pt_x = 11, pt_y = 11\<rparr>, m_score = 0\<rparr>,
      \<lparr>m_prev = dotAt 34, m_curr = \<lparr>pt_x = 11, pt_y = 17\<rparr>, m_score = 0\<rparr>]"

section \<open>The projection the specification describes\<close>



section \<open>Predicates used in the proofs\<close>

text \<open>
  Ring counts after \<open>k\<close> ring points: both non-negative, and no more than \<open>k\<close>
  together.
\<close>

definition counts_ok :: "int \<Rightarrow> int \<times> int \<Rightarrow> bool" where
  "counts_ok k c \<longleftrightarrow> 0 \<le> fst c \<and> 0 \<le> snd c \<and> fst c + snd c \<le> k"

text \<open>What holds of every entry of the suppression grid of a frame.\<close>

definition cand_ok :: "frame \<Rightarrow> candidate \<Rightarrow> bool" where
  "cand_ok fr c \<longleftrightarrow>
     10 \<le> cand_x c \<and> cand_x c < fr_width fr - 10 \<and>
     10 \<le> cand_y c \<and> cand_y c < fr_height fr - 10 \<and>
     0 \<le> cand_brighterCount c \<and> 0 \<le> cand_darkerCount c \<and>
     cand_brighterCount c + cand_darkerCount c \<le> 16 \<and>
     cand_score c = max (cand_brighterCount c) (cand_darkerCount c)"

text \<open>A landmark whose quality is within \<open>[1, 10]\<close>.\<close>

definition q_ok :: "landmark \<Rightarrow> bool" where
  "q_ok lm \<longleftrightarrow> 1 \<le> lm_quality lm \<and> lm_quality lm \<le> 10"

text \<open>A landmark and a later version of it: same identifier, and quality kept within bounds and not lowered.\<close>

definition evolves :: "landmark \<Rightarrow> landmark \<Rightarrow> bool" where
  "evolves a b \<longleftrightarrow> lm_id b = lm_id a \<and> (q_ok a \<longrightarrow> q_ok b \<and> lm_quality a \<le> lm_quality b)"

text \<open>The identifier made of one reading: clock plus random draw.\<close>

definition idOf :: "real \<times> real \<Rightarrow> real" where
  "idOf r = fst r + snd r"

text \<open>
  A later map and readings, relative to an earlier pair: the old landmarks are still
  there, in place, each evolved; \<open>k\<close> landmarks have been appended, with identifiers
  made of the first \<open>k\<close> readings, which are used up.
\<close>

definition extends :: "landmark list \<times> readings \<Rightarrow> landmark list \<times> readings \<Rightarrow> bool" where
  "extends st st' \<longleftrightarrow>
     (\<exists>k. length (fst st') = length (fst st) + k
        \<and> list_all2 evolves (fst st) (take (length (fst st)) (fst st'))
        \<and> map lm_id (drop (length (fst st)) (fst st')) = stake k (smap idOf (snd st))
        \<and> (\<forall>lm \<in> set (drop (length (fst st)) (fst st')). q_ok lm)
        \<and> snd st' = sdrop k (snd st))"

text \<open>A pipeline state all of whose landmarks have a quality within bounds.\<close>

definition state_ok :: "slam_state \<Rightarrow> bool" where
  "state_ok s \<longleftrightarrow> (\<forall>lm \<in> set (landmarksRef s). q_ok lm)"

section \<open>Verification\<close>

subsection \<open>Loops\<close>

lemma forRange_step: "0 < step \<Longrightarrow> lo < hi \<Longrightarrow> forRange lo hi step = lo # forRange (lo + step) hi step"
  by (simp add: forRange.simps)

lemma forRange_stop: "hi \<le> lo \<Longrightarrow> forRange lo hi step = []"
  by (simp add: forRange.simps)

lemma forRange_bounds: "v \<in> set (forRange lo hi step) \<Longrightarrow> lo \<le> v \<and> v < hi"
proof (induction lo hi step rule: forRange.induct)
  case (1 lo hi step)
  show ?case
  proof (cases "0 < step \<and> lo < hi")
    case True
    then have "v = lo \<or> v \<in> set (forRange (lo + step) hi step)"
      using "1.prems" by (simp add: forRange_step)
    then show ?thesis
      using True "1.IH" by auto
  next
    case False
    then have "forRange lo hi step = []" by (simp add: forRange.simps)
    then show ?thesis using "1.prems" by simp
  qed
qed

lemma div_small_nonpos: "0 < s \<Longrightarrow> x < s \<Longrightarrow> x div s \<le> (0::int)"
  by (metis div_nonpos_pos_le0 div_pos_pos_trivial nle_le)

lemma div_less_of_less_mult:
  fixes x q c :: int
  assumes "0 < q" "x < c * q"
  shows "x div q < c"
proof -
  have "(x + (- c) * q) div q = - c + x div q"
    using assms(1) by (simp only: div_mult_self1)
  moreover have "(x + (- c) * q) div q < 0"
    using assms by (simp add: pos_imp_zdiv_neg_iff)
  ultimately show ?thesis by linarith
qed

lemma length_forRange:
  "0 < step \<Longrightarrow> length (forRange lo hi step) = nat ((hi - lo + step - 1) div step)"
proof (induction lo hi step rule: forRange.induct)
  case (1 lo hi step)
  show ?case
  proof (cases "lo < hi")
    case True
    have "hi - lo + step - 1 = (hi - (lo + step) + step - 1) + 1 * step" by simp
    then have "(hi - lo + step - 1) div step = 1 + (hi - (lo + step) + step - 1) div step"
      using "1.prems" by (simp only: div_mult_self1)
    moreover have "0 \<le> (hi - (lo + step) + step - 1) div step"
      using True "1.prems" by (simp add: pos_imp_zdiv_nonneg_iff)
    ultimately show ?thesis
      using True "1.prems" "1.IH" by (simp add: forRange_step nat_add_distrib)
  next
    case False
    then have "hi - lo + step - 1 < step" by simp
    then have "(hi - lo + step - 1) div step \<le> 0"
      using "1.prems" by (intro div_small_nonpos)
    then show ?thesis using False by (simp add: forRange_stop)
  qed
qed

subsection \<open>Motion estimator: translation\<close>









subsection \<open>Motion estimator: rotation\<close>




lemma wrap_pi_range: "- pi < wrap_pi d \<and> wrap_pi d \<le> pi"
proof -
  have p: "0 < pi" by simp
  define c where "c = \<lceil>(d - pi) / (2 * pi)\<rceil>"
  have "of_int c - 1 < (d - pi) / (2 * pi)" "(d - pi) / (2 * pi) \<le> of_int c"
    unfolding c_def by linarith+
  then have "(of_int c - 1) * (2 * pi) < d - pi" "d - pi \<le> of_int c * (2 * pi)"
    using p by (simp_all add: field_simps)
  then show ?thesis
    unfolding wrap_pi_def c_def [symmetric] by (simp add: algebra_simps)
qed









subsection \<open>Feature detector\<close>

lemma not_brighter_and_darker:
  "\<not> (js_gt i (map_option (\<lambda>c. c + threshold) ci) \<and> js_lt i (map_option (\<lambda>c. c - threshold) ci))"
  by (cases i; cases ci) (simp_all add: js_gt_def js_lt_def threshold_def)

lemma ringStep_counts_ok:
  assumes "counts_ok k c"
  shows "counts_ok (k + 1) (ringStep fr x y off c)"
proof -
  define ci where "ci = readData (fr_data fr) ((y * fr_width fr + x) * 4)"
  define i where "i = readData (fr_data fr) (((y + snd off) * fr_width fr + (x + fst off)) * 4)"
  define B where "B = js_gt i (map_option (\<lambda>c. c + threshold) ci)"
  define D where "D = js_lt i (map_option (\<lambda>c. c - threshold) ci)"
  have eq: "ringStep fr x y off c = (if B then fst c + 1 else fst c, if D then snd c + 1 else snd c)"
    by (simp add: ringStep_def Let_def B_def D_def i_def ci_def)
  have "\<not> (B \<and> D)"
    unfolding B_def D_def by (rule not_brighter_and_darker)
  then show ?thesis
    using assms unfolding eq counts_ok_def by (cases B; cases D) simp_all
qed

lemma fold_ringStep_counts_ok:
  "counts_ok k c \<Longrightarrow> counts_ok (k + int (length offs)) (fold (ringStep fr x y) offs c)"
proof (induction offs arbitrary: k c)
  case Nil
  then show ?case by simp
next
  case (Cons off offs)
  from Cons.IH [OF ringStep_counts_ok [OF Cons.prems]]
  show ?case by (simp add: add.assoc)
qed

lemma ringCounts_ok: "counts_ok 16 (ringCounts fr x y)"
proof -
  have "counts_ok 0 (0, 0)" by (simp add: counts_ok_def)
  from fold_ringStep_counts_ok [OF this, of circle fr x y]
  show ?thesis by (simp add: ringCounts_def circle_def)
qed

lemma assign_values: "snd ` set (assign k v ps) \<subseteq> insert v (snd ` set ps)"
  by (induction ps) auto

lemma detectAt_cases:
  "detectAt fr depthData y x grid = grid
   \<or> detectAt fr depthData y x grid
       = assign (x div gridSize, y div gridSize)
           \<lparr>cand_x = x, cand_y = y,
            cand_score = max (fst (ringCounts fr x y)) (snd (ringCounts fr x y)),
            cand_brighterCount = fst (ringCounts fr x y),
            cand_darkerCount = snd (ringCounts fr x y),
            cand_depth = depthAt depthData (y * fr_width fr + x)\<rparr> grid"
  by (simp add: detectAt_def Let_def split: option.splits)

lemma detectAt_ok:
  assumes "10 \<le> x" "x < fr_width fr - 10" "10 \<le> y" "y < fr_height fr - 10"
    and "\<forall>c \<in> snd ` set grid. cand_ok fr c"
  shows "\<forall>c \<in> snd ` set (detectAt fr depthData y x grid). cand_ok fr c"
proof -
  define new where "new = \<lparr>cand_x = x, cand_y = y,
      cand_score = max (fst (ringCounts fr x y)) (snd (ringCounts fr x y)),
      cand_brighterCount = fst (ringCounts fr x y), cand_darkerCount = snd (ringCounts fr x y),
      cand_depth = depthAt depthData (y * fr_width fr + x)\<rparr>"
  define key where "key = (x div gridSize, y div gridSize)"
  have new: "cand_ok fr new"
    using assms(1-4) ringCounts_ok [of fr x y] by (simp add: new_def cand_ok_def counts_ok_def)
  have "detectAt fr depthData y x grid = grid \<or> detectAt fr depthData y x grid = assign key new grid"
    unfolding new_def key_def by (rule detectAt_cases)
  then show ?thesis
  proof
    assume "detectAt fr depthData y x grid = grid"
    then show ?thesis using assms(5) by simp
  next
    assume e: "detectAt fr depthData y x grid = assign key new grid"
    show ?thesis
      unfolding e using assign_values [of key new grid] new assms(5) by blast
  qed
qed

lemma fold_detectAt_ok:
  assumes "\<forall>x \<in> set xs. 10 \<le> x \<and> x < fr_width fr - 10" "10 \<le> y" "y < fr_height fr - 10"
    and "\<forall>c \<in> snd ` set grid. cand_ok fr c"
  shows "\<forall>c \<in> snd ` set (fold (detectAt fr depthData y) xs grid). cand_ok fr c"
  using assms(1,4)
proof (induction xs arbitrary: grid)
  case Nil
  then show ?case by simp
next
  case (Cons x xs)
  have x: "10 \<le> x" "x < fr_width fr - 10" using Cons.prems(1) by simp_all
  have xs: "\<forall>x \<in> set xs. 10 \<le> x \<and> x < fr_width fr - 10" using Cons.prems(1) by simp
  have g: "\<forall>c \<in> snd ` set (detectAt fr depthData y x grid). cand_ok fr c"
    by (rule detectAt_ok [OF x assms(2,3) Cons.prems(2)])
  have "fold (detectAt fr depthData y) (x # xs) grid
          = fold (detectAt fr depthData y) xs (detectAt fr depthData y x grid)"
    by simp
  then show ?case using Cons.IH [OF xs g] by (simp only:)
qed

lemma fold_rows_ok:
  assumes "\<forall>x \<in> set xs. 10 \<le> x \<and> x < fr_width fr - 10"
    and "\<forall>y \<in> set ys. 10 \<le> y \<and> y < fr_height fr - 10"
    and "\<forall>c \<in> snd ` set grid. cand_ok fr c"
  shows "\<forall>c \<in> snd ` set (fold (\<lambda>y grid. fold (detectAt fr depthData y) xs grid) ys grid). cand_ok fr c"
  using assms(2,3)
proof (induction ys arbitrary: grid)
  case Nil
  then show ?case by simp
next
  case (Cons y ys)
  have y: "10 \<le> y" "y < fr_height fr - 10" using Cons.prems(1) by simp_all
  have ys: "\<forall>y \<in> set ys. 10 \<le> y \<and> y < fr_height fr - 10" using Cons.prems(1) by simp
  have g: "\<forall>c \<in> snd ` set (fold (detectAt fr depthData y) xs grid). cand_ok fr c"
    by (rule fold_detectAt_ok [OF assms(1) y Cons.prems(2)])
  have "fold (\<lambda>y grid. fold (detectAt fr depthData y) xs grid) (y # ys) grid
          = fold (\<lambda>y grid. fold (detectAt fr depthData y) xs grid) ys
              (fold (detectAt fr depthData y) xs grid)"
    by simp
  then show ?case using Cons.IH [OF ys g] by (simp only:)
qed

lemma rawFeatures_ok: "c \<in> set (rawFeatures fr depthData) \<Longrightarrow> cand_ok fr c"
proof -
  assume c: "c \<in> set (rawFeatures fr depthData)"
  have "\<forall>c \<in> snd ` set (detectGrid fr depthData). cand_ok fr c"
    unfolding detectGrid_def
    by (rule fold_rows_ok) (auto dest: forRange_bounds)
  then show ?thesis using c by (auto simp: rawFeatures_def)
qed

lemma map_of_assign: "map_of (assign k v ps) k' = (if k' = k then Some v else map_of ps k')"
  by (induction ps) auto

lemma clusterAdd_keys:
  "map_of (clusterAdd feat cm) k \<noteq> None \<longleftrightarrow> k = clusterKey feat \<or> map_of cm k \<noteq> None"
  by (auto simp: clusterAdd_def Let_def map_of_assign split: option.splits if_splits)

lemma fold_clusterAdd_keys:
  "map_of (fold clusterAdd raw cm) k \<noteq> None \<longleftrightarrow> k \<in> clusterKey ` set raw \<or> map_of cm k \<noteq> None"
proof (induction raw arbitrary: cm)
  case Nil
  show ?case by simp
next
  case (Cons c raw)
  have "map_of (fold clusterAdd (c # raw) cm) k \<noteq> None
          \<longleftrightarrow> map_of (fold clusterAdd raw (clusterAdd c cm)) k \<noteq> None"
    by simp
  also have "\<dots> \<longleftrightarrow> k \<in> clusterKey ` set raw \<or> map_of (clusterAdd c cm) k \<noteq> None"
    by (rule Cons.IH)
  also have "\<dots> \<longleftrightarrow> k \<in> clusterKey ` set (c # raw) \<or> map_of cm k \<noteq> None"
    unfolding clusterAdd_keys by auto
  finally show ?case .
qed

lemma clusterDensity_present:
  "feat \<in> set raw \<Longrightarrow> map_of (buildClusters raw) (clusterKey feat) \<noteq> None"
  using fold_clusterAdd_keys [of raw "[]" "clusterKey feat"]
  by (auto simp: buildClusters_def)

subsection \<open>Feature detector: the single-dot frame\<close>

lemma forRange_10_11: "forRange 10 11 3 = [10]"
  by (simp add: forRange_step forRange_stop)

lemma ringCounts_dot: "ringCounts dot_frame 10 10 = (0, 16)"
  by (simp add: ringCounts_def circle_def ringStep_def dot_frame_def readData_def js_gt_def
      js_lt_def threshold_def Let_def)

lemma rawFeatures_dot:
  "rawFeatures dot_frame None =
     [\<lparr>cand_x = 10, cand_y = 10, cand_score = 16, cand_brighterCount = 0,
       cand_darkerCount = 16, cand_depth = None\<rparr>]"
  by (simp add: rawFeatures_def detectGrid_def detectAt_def ringCounts_dot forRange_10_11
      depthAt_def gridSize_def Let_def dot_frame_def [THEN arg_cong [of _ _ fr_width]]
      dot_frame_def [THEN arg_cong [of _ _ fr_height]])

lemma extractFeatures_dot: "extractFeatures dot_frame None = [dot_feature]"
  by (simp add: extractFeatures_def rawFeatures_dot isObstacle_def strongCornerRule_def
      toFeature_def dot_feature_def Let_def)

subsection \<open>Feature detector: margin and cap\<close>

text \<open>
  Claim C6. For every frame and depth input, every feature returned by
  \<open>extractFeatures\<close> lies at least ten pixels inside every frame edge, and the returned
  list has at most 1500 elements.
\<close>

theorem extractFeatures_inside_margin_and_capped:
  "(\<forall>f \<in> set (extractFeatures fr depthData).
       10 \<le> feat_x f \<and> feat_x f < fr_width fr - 10 \<and>
       10 \<le> feat_y f \<and> feat_y f < fr_height fr - 10)
   \<and> length (extractFeatures fr depthData) \<le> 1500"
proof
  show "\<forall>f \<in> set (extractFeatures fr depthData).
       10 \<le> feat_x f \<and> feat_x f < fr_width fr - 10 \<and>
       10 \<le> feat_y f \<and> feat_y f < fr_height fr - 10"
  proof
    fix f assume "f \<in> set (extractFeatures fr depthData)"
    then have "f \<in> set (map toFeature (filter (isObstacle fr (buildClusters (rawFeatures fr depthData)))
                 (rawFeatures fr depthData)))"
      unfolding extractFeatures_def Let_def by (rule in_set_takeD)
    then have "f \<in> toFeature ` set (rawFeatures fr depthData)"
      by auto
    then obtain c where c: "c \<in> set (rawFeatures fr depthData)" and f: "f = toFeature c"
      by blast
    from rawFeatures_ok [OF c] show "10 \<le> feat_x f \<and> feat_x f < fr_width fr - 10 \<and>
       10 \<le> feat_y f \<and> feat_y f < fr_height fr - 10"
      by (simp add: f toFeature_def cand_ok_def)
  qed
  show "length (extractFeatures fr depthData) \<le> 1500"
    by (simp add: extractFeatures_def Let_def)
qed

theorem extractFeatures_inside_margin_and_capped_witness:
  "dot_feature \<in> set (extractFeatures dot_frame None)
   \<and> 10 \<le> feat_x dot_feature \<and> feat_x dot_feature < fr_width dot_frame - 10
   \<and> 10 \<le> feat_y dot_feature \<and> feat_y dot_feature < fr_height dot_frame - 10
   \<and> length (extractFeatures dot_frame None) \<le> 1500"
  using extractFeatures_inside_margin_and_capped [of dot_frame None]
  by (simp add: extractFeatures_dot)

subsection \<open>Feature detector: the high-contrast-edge guard\<close>

text \<open>
  Claim C10. For every corner candidate the detector produces, the brighter and darker
  counts add up to at most 16, and so the guard that asks for a score of at least 15
  together with counts at most 2 apart holds of no candidate: it never makes a feature an
  obstacle, and the classification is the disjunction of the other guards.
\<close>

theorem highContrastEdgeRule_never_fires:
  "\<forall>c \<in> set (rawFeatures fr depthData).
      cand_brighterCount c + cand_darkerCount c \<le> 16
      \<and> \<not> highContrastEdgeRule c
      \<and> (\<forall>cm. isObstacle fr cm c \<longleftrightarrow>
            depthRule c (clusterDensity cm c) \<or> denseClusterRule cm (clusterDensity cm c)
            \<or> centerFrameRule fr cm c (clusterDensity cm c) \<or> strongCornerRule c
            \<or> anomalyRule cm (clusterDensity cm c))"
proof
  fix c assume "c \<in> set (rawFeatures fr depthData)"
  then have ok: "cand_ok fr c" by (rule rawFeatures_ok)
  then have sum: "cand_brighterCount c + cand_darkerCount c \<le> 16"
    by (simp add: cand_ok_def)
  have no: "\<not> highContrastEdgeRule c"
    using ok unfolding cand_ok_def highContrastEdgeRule_def by linarith
  show "cand_brighterCount c + cand_darkerCount c \<le> 16
      \<and> \<not> highContrastEdgeRule c
      \<and> (\<forall>cm. isObstacle fr cm c \<longleftrightarrow>
            depthRule c (clusterDensity cm c) \<or> denseClusterRule cm (clusterDensity cm c)
            \<or> centerFrameRule fr cm c (clusterDensity cm c) \<or> strongCornerRule c
            \<or> anomalyRule cm (clusterDensity cm c))"
    using sum no unfolding isObstacle_def Let_def by blast
qed

theorem highContrastEdgeRule_never_fires_witness:
  "\<lparr>cand_x = 10, cand_y = 10, cand_score = 16, cand_brighterCount = 0,
     cand_darkerCount = 16, cand_depth = None\<rparr> \<in> set (rawFeatures dot_frame None)
   \<and> (0::int) + 16 \<le> 16
   \<and> \<not> highContrastEdgeRule
         \<lparr>cand_x = 10, cand_y = 10, cand_score = 16, cand_brighterCount = 0,
          cand_darkerCount = 16, cand_depth = None\<rparr>"
  using highContrastEdgeRule_never_fires [of dot_frame None]
  by (simp add: rawFeatures_dot)

subsection \<open>Feature tracker: sampling\<close>

lemma sampleStep_pos: "0 < sampleStep fs"
  by (simp add: sampleStep_def)

lemma length_sampledFeatures:
  "length (sampledFeatures fs)
     = nat ((int (length fs) + sampleStep fs - 1) div sampleStep fs)"
  by (simp add: sampledFeatures_def length_forRange [OF sampleStep_pos])

lemma sampled_lt_600: "nat ((n + max 1 (n div 300) - 1) div max 1 (n div 300)) < 600"
proof (cases "n < 300")
  case True
  then have "max 1 (n div 300) = 1" by fastforce
  then show ?thesis using True by simp
next
  case False
  define q where "q = n div 300"
  have q: "1 \<le> q" using False unfolding q_def by presburger
  have "n < 300 * q + 300" unfolding q_def by presburger
  then have "n + q - 1 < 600 * q" using q by linarith
  then have "(n + q - 1) div q < 600"
    using q by (intro div_less_of_less_mult) simp_all
  moreover have "max 1 q = q" using q by simp
  ultimately show ?thesis unfolding q_def [symmetric] by simp
qed

lemma sampled_le_length: "nat ((n + s - 1) div s) \<le> nat n" if "0 < s" for n s :: int
proof (cases "0 < n")
  case True
  have "0 \<le> (n - 1) * (s - 1)" using True that by simp
  then have "n + s - 1 \<le> n * s" by (simp add: algebra_simps)
  then have "(n + s - 1) div s \<le> n"
    using that zdiv_mono1 by fastforce
  then show ?thesis by simp
next
  case False
  then have "n + s - 1 < s" by simp
  then have "(n + s - 1) div s \<le> 0"
    using that by (intro div_small_nonpos)
  then show ?thesis by simp
qed

lemma length_trackOne: "length (trackOne pf cf f ms) \<le> length ms + 1"
  by (simp add: trackOne_def Let_def split: option.splits)

lemma length_fold_trackOne: "length (fold (trackOne pf cf) fs ms) \<le> length ms + length fs"
proof (induction fs arbitrary: ms)
  case Nil
  show ?case by simp
next
  case (Cons f fs)
  have "length (fold (trackOne pf cf) (f # fs) ms) \<le> length (trackOne pf cf f ms) + length fs"
    using Cons.IH [of "trackOne pf cf f ms"] by simp
  then show ?case using length_trackOne [of pf cf f ms] by simp
qed

text \<open>
  Claim C5, as amended. For every list of \<open>n\<close> previous features the tracker visits
  \<open>\<lceil>n / max(1, \<lfloor>n / 300\<rfloor>)\<rceil>\<close> of them, which is fewer than 600 and no more than \<open>n\<close>, and
  returns at most one correspondence for each.
\<close>

theorem sampledFeatures_fewer_than_600:
  "length (sampledFeatures prevFeatures)
      = nat ((int (length prevFeatures) + sampleStep prevFeatures - 1) div sampleStep prevFeatures)
   \<and> length (sampledFeatures prevFeatures) < 600
   \<and> length (sampledFeatures prevFeatures) \<le> length prevFeatures
   \<and> length (trackFeatures prevFrame currFrame prevFeatures) \<le> length (sampledFeatures prevFeatures)"
proof -
  have a: "length (sampledFeatures prevFeatures) < 600"
    unfolding length_sampledFeatures sampleStep_def by (rule sampled_lt_600)
  have b: "length (sampledFeatures prevFeatures) \<le> length prevFeatures"
    unfolding length_sampledFeatures
    using sampled_le_length [OF sampleStep_pos, of "int (length prevFeatures)" prevFeatures] by simp
  have c: "length (trackFeatures prevFrame currFrame prevFeatures) \<le> length (sampledFeatures prevFeatures)"
    using length_fold_trackOne [of prevFrame currFrame "sampledFeatures prevFeatures" "[]"]
    by (simp add: trackFeatures_def)
  show ?thesis using length_sampledFeatures a b c by blast
qed

text \<open>Of 599 previous features all 599 are visited, which is more than 300.\<close>

theorem sampledFeatures_at_most_300_counterexample:
  "\<not> length (sampledFeatures (replicate 599 dot_feature)) \<le> 300"
  by (simp add: length_sampledFeatures sampleStep_def)

subsection \<open>Landmark map\<close>

lemma evolves_refl: "evolves a a"
  by (simp add: evolves_def)

lemma evolves_trans: "evolves a b \<Longrightarrow> evolves b c \<Longrightarrow> evolves a c"
  by (auto simp: evolves_def)

lemma list_all2_evolves_refl: "list_all2 evolves lms lms"
  by (simp add: list_all2_refl evolves_refl)

lemma list_all2_evolves_trans:
  "list_all2 evolves as bs \<Longrightarrow> list_all2 evolves bs cs \<Longrightarrow> list_all2 evolves as cs"
  by (rule list_all2_trans [of evolves evolves evolves]) (auto intro: evolves_trans)

lemma fuseFirst_evolves:
  "fuseFirst wx wy lms = Some lms' \<Longrightarrow> list_all2 evolves lms lms'"
proof (induction lms arbitrary: lms')
  case Nil
  then show ?case by simp
next
  case (Cons lm lms)
  show ?case
  proof (cases "hypot (lm_x lm - wx) (lm_y lm - wy) < matchThreshold * 0.001")
    case True
    then have "lms' = lm\<lparr>lm_x := (lm_x lm * real_of_int (lm_quality lm) + wx) / real_of_int (lm_quality lm + 1),
                   lm_y := (lm_y lm * real_of_int (lm_quality lm) + wy) / real_of_int (lm_quality lm + 1),
                   lm_quality := min (lm_quality lm + 1) 10\<rparr> # lms"
      using Cons.prems by (simp add: Let_def)
    moreover have "evolves lm (lm\<lparr>lm_x := (lm_x lm * real_of_int (lm_quality lm) + wx) / real_of_int (lm_quality lm + 1),
                   lm_y := (lm_y lm * real_of_int (lm_quality lm) + wy) / real_of_int (lm_quality lm + 1),
                   lm_quality := min (lm_quality lm + 1) 10\<rparr>)"
      by (simp add: evolves_def q_ok_def)
    ultimately show ?thesis
      using list_all2_evolves_refl [of lms] by (simp only: list_all2_Cons)
  next
    case False
    then obtain rest where r: "fuseFirst wx wy lms = Some rest" and l: "lms' = lm # rest"
      using Cons.prems by (auto simp: Let_def)
    show ?thesis using Cons.IH [OF r] l by (simp add: evolves_refl)
  qed
qed

text \<open>What one observation does to the map and the readings.\<close>

lemma observe_cases:
  obtains (fused) lms' where "observe p f (lms, env) = (lms', env)" "list_all2 evolves lms lms'"
  | (inserted) "observe p f (lms, env)
                  = (lms @ [\<lparr>lm_id = idOf (shd env), lm_x = worldX p f, lm_y = worldY p f,
                              lm_quality = 1\<rparr>], stl env)"
  | (full) "observe p f (lms, env) = (lms, env)"
proof (cases "fuseFirst (worldX p f) (worldY p f) lms")
  case None
  show ?thesis
  proof (cases "length lms < maxLandmarks")
    case True
    with None have "observe p f (lms, env)
                  = (lms @ [\<lparr>lm_id = idOf (shd env), lm_x = worldX p f, lm_y = worldY p f,
                              lm_quality = 1\<rparr>], stl env)"
      by (simp add: observe_def idOf_def)
    then show ?thesis by (rule inserted)
  next
    case False
    with None have "observe p f (lms, env) = (lms, env)" by (simp add: observe_def)
    then show ?thesis by (rule full)
  qed
next
  case (Some lms')
  then have "observe p f (lms, env) = (lms', env)" by (simp add: observe_def)
  then show ?thesis using fuseFirst_evolves [OF Some] by (rule fused)
qed

lemma extends_refl: "extends st st"
  unfolding extends_def by (intro exI [of _ 0]) (simp add: list_all2_evolves_refl)

lemma observe_extends: "extends (lms, env) (observe p f (lms, env))"
proof (cases rule: observe_cases [of p f lms env])
  case (fused lms')
  then have "length lms' = length lms" by (simp add: list_all2_lengthD)
  then show ?thesis
    unfolding extends_def using fused by (intro exI [of _ 0]) simp
next
  case inserted
  show ?thesis
    unfolding extends_def inserted
    by (intro exI [of _ 1]) (simp add: list_all2_evolves_refl q_ok_def)
next
  case full
  then show ?thesis by (simp add: extends_refl)
qed

lemma q_ok_evolves: "list_all2 evolves as bs \<Longrightarrow> \<forall>a \<in> set as. q_ok a \<Longrightarrow> \<forall>b \<in> set bs. q_ok b"
  by (induction rule: list_all2_induct) (auto simp: evolves_def)

lemma ids_evolves: "list_all2 evolves as bs \<Longrightarrow> map lm_id bs = map lm_id as"
  by (induction rule: list_all2_induct) (auto simp: evolves_def)

lemma extends_trans:
  assumes "extends st1 st2" "extends st2 st3"
  shows "extends st1 st3"
proof -
  obtain k where k: "length (fst st2) = length (fst st1) + k"
      "list_all2 evolves (fst st1) (take (length (fst st1)) (fst st2))"
      "map lm_id (drop (length (fst st1)) (fst st2)) = stake k (smap idOf (snd st1))"
      "\<forall>lm \<in> set (drop (length (fst st1)) (fst st2)). q_ok lm"
      "snd st2 = sdrop k (snd st1)"
    using assms(1) unfolding extends_def by blast
  obtain j where j: "length (fst st3) = length (fst st2) + j"
      "list_all2 evolves (fst st2) (take (length (fst st2)) (fst st3))"
      "map lm_id (drop (length (fst st2)) (fst st3)) = stake j (smap idOf (snd st2))"
      "\<forall>lm \<in> set (drop (length (fst st2)) (fst st3)). q_ok lm"
      "snd st3 = sdrop j (snd st2)"
    using assms(2) unfolding extends_def by blast
  let ?n1 = "length (fst st1)" and ?n2 = "length (fst st2)"
  define mid where "mid = take ?n2 (fst st3)"
  have mid: "list_all2 evolves (fst st2) mid" using j(2) by (simp add: mid_def)
  have lmid: "length mid = ?n2" using j(1) by (simp add: mid_def)
  have split3: "fst st3 = mid @ drop ?n2 (fst st3)" by (simp add: mid_def)
  have t1: "take ?n1 (fst st3) = take ?n1 mid"
    using k(1) by (simp add: mid_def min_def)
  have "list_all2 evolves (take ?n1 (fst st2)) (take ?n1 mid)"
    using mid by (rule list_all2_takeI)
  then have a: "list_all2 evolves (fst st1) (take ?n1 (fst st3))"
    unfolding t1 using k(2) by (rule list_all2_evolves_trans [rotated])
  have dd: "list_all2 evolves (drop ?n1 (fst st2)) (drop ?n1 mid)"
    using mid by (rule list_all2_dropI)
  have dm: "map lm_id (drop ?n1 mid) = map lm_id (drop ?n1 (fst st2))"
    using dd by (rule ids_evolves)
  have qm: "\<forall>lm \<in> set (drop ?n1 mid). q_ok lm"
    using dd k(4) by (rule q_ok_evolves)
  have "drop ?n1 (mid @ drop ?n2 (fst st3)) = drop ?n1 mid @ drop ?n2 (fst st3)"
    using k(1) lmid by simp
  then have d3: "drop ?n1 (fst st3) = drop ?n1 mid @ drop ?n2 (fst st3)"
    using split3 by simp
  have "map lm_id (drop ?n1 (fst st3))
          = stake k (smap idOf (snd st1)) @ stake j (sdrop k (smap idOf (snd st1)))"
    unfolding d3 by (simp add: dm k(3) j(3) k(5) sdrop_smap)
  then have b: "map lm_id (drop ?n1 (fst st3)) = stake (k + j) (smap idOf (snd st1))"
    by (simp only: stake_add)
  have c: "\<forall>lm \<in> set (drop ?n1 (fst st3)). q_ok lm"
    unfolding d3 using qm j(4) by auto
  have d: "snd st3 = sdrop (k + j) (snd st1)"
    by (simp add: j(5) k(5) sdrop_add)
  have e: "length (fst st3) = ?n1 + (k + j)" using k(1) j(1) by simp
  show ?thesis
    unfolding extends_def using a b c d e by (intro exI [of _ "k + j"] conjI)
qed

lemma fold_observe_extends: "extends st (fold (observe p) fs st)"
proof (induction fs arbitrary: st)
  case Nil
  show ?case by (simp add: extends_refl)
next
  case (Cons f fs)
  have "extends st (observe p f st)"
    using observe_extends [of "fst st" "snd st" p f] by simp
  then show ?case
    using Cons.IH [of "observe p f st"] by (auto intro: extends_trans)
qed

lemma updateMap_extends: "extends (lms, env) (updateMap lms fs p env)"
  unfolding updateMap_def by (rule fold_observe_extends)

subsection \<open>Landmark map: projection\<close>





lemma updateMap_dot:
  "fst (updateMap [] [dot_feature] originPose env)
     = [\<lparr>lm_id = fst (shd env) + snd (shd env), lm_x = 1 / 100, lm_y = 0, lm_quality = 1\<rparr>]"
  by (simp add: updateMap_def observe_def worldX_def worldY_def dot_feature_def originPose_def
      maxLandmarks_def)


subsection \<open>Landmark map: identifiers\<close>





subsection \<open>Landmark quality\<close>

lemma updateMap_q_ok:
  assumes "\<forall>lm \<in> set lms. q_ok lm"
  shows "\<forall>lm \<in> set (fst (updateMap lms fs p env)). q_ok lm"
proof -
  let ?res = "fst (updateMap lms fs p env)"
  have ext: "list_all2 evolves lms (take (length lms) ?res)"
      "\<forall>lm \<in> set (drop (length lms) ?res). q_ok lm"
    using updateMap_extends [of lms env fs p] unfolding extends_def by auto
  have "\<forall>lm \<in> set (take (length lms) ?res). q_ok lm"
    using ext(1) assms by (rule q_ok_evolves)
  moreover have "set ?res = set (take (length lms) ?res) \<union> set (drop (length lms) ?res)"
    by (metis append_take_drop_id set_append)
  ultimately show ?thesis using ext(2) by blast
qed

lemma updateMap_keeps:
  assumes "i < length lms"
  shows "i < length (fst (updateMap lms fs p env))
       \<and> evolves (lms ! i) (fst (updateMap lms fs p env) ! i)"
proof -
  let ?res = "fst (updateMap lms fs p env)"
  obtain k where k: "length ?res = length lms + k"
      "list_all2 evolves lms (take (length lms) ?res)"
    using updateMap_extends [of lms env fs p] unfolding extends_def by auto
  have "evolves (lms ! i) (take (length lms) ?res ! i)"
    using k(2) assms by (rule list_all2_nthD)
  then show ?thesis using assms k(1) by simp
qed

lemma landmarksRef_processSLAMFrame:
  "landmarksRef (fst (processSLAMFrame s ready grayData depthData env))
     = (if ready
        then fst (updateMap (landmarksRef s) (extractFeatures grayData depthData)
                   \<lparr>pose_x = pose_x (poseRef s) + delta_dx (cyclePoseDelta s grayData),
                    pose_y = pose_y (poseRef s) + delta_dy (cyclePoseDelta s grayData),
                    pose_heading = pose_heading (poseRef s) + delta_dHeading (cyclePoseDelta s grayData)\<rparr>
                   env)
        else landmarksRef s)"
  by (simp add: processSLAMFrame_def Let_def)

lemma applyEvent_ok: "state_ok (fst st) \<Longrightarrow> state_ok (fst (applyEvent e st))"
proof (cases e)
  case (Frame ready grayData depthData)
  assume "state_ok (fst st)"
  then show ?thesis
    unfolding Frame state_ok_def
    by (cases st) (simp add: landmarksRef_processSLAMFrame updateMap_q_ok del: split_paired_All)
next
  case Reset
  then show ?thesis by (cases st) (simp add: state_ok_def handleReset_def)
qed

lemma fold_applyEvent_ok: "state_ok (fst st) \<Longrightarrow> state_ok (fst (fold applyEvent es st))"
  by (induction es arbitrary: st) (simp_all add: applyEvent_ok)

lemma run_ok: "state_ok (fst (run events env))"
  unfolding run_def by (rule fold_applyEvent_ok) (simp add: state_ok_def initialState_def)

lemma run_snoc: "run (events @ [e]) env = applyEvent e (run events env)"
  by (simp add: run_def)

lemma applyEvent_Frame:
  "applyEvent (Frame ready grayData depthData) st
     = processSLAMFrame (fst st) ready grayData depthData (snd st)"
  by (cases st) simp

lemma poseRef_processSLAMFrame:
  "poseRef (fst (processSLAMFrame s True grayData depthData env))
     = \<lparr>pose_x = pose_x (poseRef s) + delta_dx (cyclePoseDelta s grayData),
        pose_y = pose_y (poseRef s) + delta_dy (cyclePoseDelta s grayData),
        pose_heading = pose_heading (poseRef s) + delta_dHeading (cyclePoseDelta s grayData)\<rparr>"
  "prevFrameRef (fst (processSLAMFrame s True grayData depthData env)) = Some grayData"
  "prevFeaturesRef (fst (processSLAMFrame s True grayData depthData env))
     = Some (extractFeatures grayData depthData)"
  by (simp_all add: processSLAMFrame_def Let_def)

subsection \<open>Two cycles on the single-dot frame\<close>

lemma search_offsets:
  "forRange (- searchRadius) (searchRadius + 1) 3
     = [-20, -17, -14, -11, -8, -5, -2, 1, 4, 7, 10, 13, 16, 19]"
  by (simp add: searchRadius_def forRange_step forRange_stop)

lemma dot_frame_size: "fr_width dot_frame = 21" "fr_height dot_frame = 21"
  by (simp_all add: dot_frame_def)

lemma searchBest_dot: "searchBest dot_frame desc dot_feature = None"
  by (simp add: searchBest_def search_offsets searchAt_def dot_frame_size dot_feature_def)

lemma sampled_single: "sampledFeatures [f] = [f]"
  by (simp add: sampledFeatures_def sampleStep_def forRange_step forRange_stop)

lemma trackFeatures_dot: "trackFeatures dot_frame dot_frame [dot_feature] = []"
  by (simp add: trackFeatures_def sampled_single trackOne_def searchBest_dot)

lemma run_dot_1:
  "landmarksRef (fst (run [Frame True dot_frame None] example_readings))
     = [\<lparr>lm_id = 2001 / 2, lm_x = 1 / 100, lm_y = 0, lm_quality = 1\<rparr>]"
  by (simp add: run_def landmarksRef_processSLAMFrame extractFeatures_dot cyclePoseDelta_def
      trackingAttempted_def initialState_def zeroDelta_def originPose_def
      updateMap_dot [unfolded originPose_def] example_readings_def)

lemma run_dot_2:
  "landmarksRef (fst (run [Frame True dot_frame None, Frame True dot_frame None] example_readings))
     = [\<lparr>lm_id = 2001 / 2, lm_x = 1 / 100, lm_y = 0, lm_quality = 2\<rparr>]"
proof -
  obtain s env' where st: "run [Frame True dot_frame None] example_readings = (s, env')"
    by (cases "run [Frame True dot_frame None] example_readings")
  have lms: "landmarksRef s = [\<lparr>lm_id = 2001 / 2, lm_x = 1 / 100, lm_y = 0, lm_quality = 1\<rparr>]"
    using run_dot_1 by (simp add: st)
  have s: "poseRef s = originPose" "prevFrameRef s = Some dot_frame"
      "prevFeaturesRef s = Some [dot_feature]"
    using st by (auto simp: run_def processSLAMFrame_def Let_def initialState_def
        cyclePoseDelta_def trackingAttempted_def zeroDelta_def originPose_def
        extractFeatures_dot)
  have d: "cyclePoseDelta s dot_frame = zeroDelta"
    by (simp add: cyclePoseDelta_def cycleMatches_def s trackFeatures_dot deltaOf_def)
  have "run [Frame True dot_frame None, Frame True dot_frame None] example_readings
          = processSLAMFrame s True dot_frame None env'"
    using run_snoc [of "[Frame True dot_frame None]" "Frame True dot_frame None" example_readings]
    by (simp add: st)
  then show ?thesis
    by (simp add: landmarksRef_processSLAMFrame d s lms zeroDelta_def originPose_def
        extractFeatures_dot updateMap_def observe_def worldX_def worldY_def dot_feature_def
        matchThreshold_def hypot_def)
qed

text \<open>
  Claim C7. At every moment, after any sequence of cycles and resets, the quality of every
  landmark lies in \<open>[1, 10]\<close>; and a further cycle keeps every landmark in its place with
  its identifier and a quality that is not lower.
\<close>

theorem landmark_quality_bounded_and_monotone:
  "(\<forall>lm \<in> set (landmarksRef (fst (run events env))). 1 \<le> lm_quality lm \<and> lm_quality lm \<le> 10)
   \<and> (\<forall>i < length (landmarksRef (fst (run events env))).
         i < length (landmarksRef (fst (run (events @ [Frame ready grayData depthData]) env)))
         \<and> lm_id (landmarksRef (fst (run (events @ [Frame ready grayData depthData]) env)) ! i)
             = lm_id (landmarksRef (fst (run events env)) ! i)
         \<and> lm_quality (landmarksRef (fst (run events env)) ! i)
             \<le> lm_quality (landmarksRef (fst (run (events @ [Frame ready grayData depthData]) env)) ! i))"
proof (intro conjI allI impI)
  show "\<forall>lm \<in> set (landmarksRef (fst (run events env))). 1 \<le> lm_quality lm \<and> lm_quality lm \<le> 10"
    using run_ok [of events env] by (simp add: state_ok_def q_ok_def)
next
  fix i
  assume i: "i < length (landmarksRef (fst (run events env)))"
  obtain s env' where st: "run events env = (s, env')" by (cases "run events env")
  let ?after = "landmarksRef (fst (run (events @ [Frame ready grayData depthData]) env))"
  have ok: "q_ok (landmarksRef s ! i)"
    using run_ok [of events env] i by (simp add: st state_ok_def)
  have i': "i < length (landmarksRef s)" using i by (simp add: st)
  have after: "?after = landmarksRef (fst (processSLAMFrame s ready grayData depthData env'))"
    by (simp add: run_snoc st)
  have keep: "i < length ?after \<and> evolves (landmarksRef s ! i) (?after ! i)"
  proof (cases ready)
    case True
    then show ?thesis
      unfolding after landmarksRef_processSLAMFrame using updateMap_keeps [OF i'] by simp
  next
    case False
    then show ?thesis
      unfolding after landmarksRef_processSLAMFrame using i' by (simp add: evolves_refl)
  qed
  from keep show "i < length ?after" by simp
  from keep ok show "lm_id (?after ! i) = lm_id (landmarksRef (fst (run events env)) ! i)"
    by (simp add: st evolves_def)
  from keep ok show "lm_quality (landmarksRef (fst (run events env)) ! i) \<le> lm_quality (?after ! i)"
    by (simp add: st evolves_def)
qed

theorem landmark_quality_bounded_and_monotone_witness:
  "0 < length (landmarksRef (fst (run [Frame True dot_frame None] example_readings)))
   \<and> lm_quality (landmarksRef (fst (run [Frame True dot_frame None] example_readings)) ! 0) = 1
   \<and> lm_quality (landmarksRef
         (fst (run ([Frame True dot_frame None] @ [Frame True dot_frame None]) example_readings)) ! 0) = 2
   \<and> (1::int) \<le> 2 \<and> (2::int) \<le> 10"
  using landmark_quality_bounded_and_monotone
    [of "[Frame True dot_frame None]" example_readings True dot_frame None]
  by (simp add: run_dot_1 run_dot_2)

subsection \<open>Reset\<close>

lemma handleReset_initial: "handleReset s = initialState"
  by (cases s) (simp add: handleReset_def initialState_def)

text \<open>
  Claim C8. After a reset the state is the one the component is mounted with: the pose is
  \<open>(0, 0, 0)\<close>, the trajectory is the single point \<open>(0, 0)\<close>, there are no landmarks,
  and no previous frame or features are held, so the next cycle attempts no tracking,
  applies the zero delta and does what the first cycle after mounting does.
\<close>

theorem handleReset_reenters_idle:
  "handleReset s = initialState
   \<and> poseRef (handleReset s) = \<lparr>pose_x = 0, pose_y = 0, pose_heading = 0\<rparr>
   \<and> trajectoryRef (handleReset s) = [(0, 0)]
   \<and> landmarksRef (handleReset s) = []
   \<and> landmarkCount (handleReset s) = 0
   \<and> prevFrameRef (handleReset s) = None
   \<and> prevFeaturesRef (handleReset s) = None
   \<and> \<not> trackingAttempted (handleReset s)
   \<and> cycleMatches (handleReset s) grayData = []
   \<and> cyclePoseDelta (handleReset s) grayData = zeroDelta
   \<and> processSLAMFrame (handleReset s) ready grayData depthData env
       = processSLAMFrame initialState ready grayData depthData env"
  by (simp add: handleReset_initial initialState_def originPose_def trackingAttempted_def
      cycleMatches_def cyclePoseDelta_def)

subsection \<open>A cycle with exactly five correspondences\<close>

lemma frameA_size: "fr_width frameA = 22" "fr_height frameA = 46"
  by (simp_all add: frameA_def)

lemma frameB_size: "fr_width frameB = 22" "fr_height frameB = 46"
  by (simp_all add: frameB_def)

lemma sample_rows_46: "forRange 10 36 3 = [10, 13, 16, 19, 22, 25, 28, 31, 34]"
  by (simp add: forRange_step forRange_stop)

lemma sample_cols_22: "forRange 10 12 3 = [10]"
  by (simp add: forRange_step forRange_stop)

lemma readA: "readData (fr_data frameA) i =
   (if 0 \<le> i \<and> i < 4048 then Some (if i = 920 \<or> i = 1448 \<or> i = 1976 \<or> i = 2504 \<or> i = 3032 then 255 else 0) else None)"
  by (auto simp: readData_def frameA_def nth_list_update)

lemma readB: "readData (fr_data frameB) i =
   (if 0 \<le> i \<and> i < 4048 then Some (if i = 1012 \<or> i = 1540 \<or> i = 2068 \<or> i = 2596 \<or> i = 3124 then 255 else 0) else None)"
  by (auto simp: readData_def frameB_def nth_list_update)

lemma ringA:
  "ringCounts frameA 10 10 = (0, 16)" "ringCounts frameA 10 13 = (2, 0)"
  "ringCounts frameA 10 16 = (0, 16)" "ringCounts frameA 10 19 = (2, 0)"
  "ringCounts frameA 10 22 = (0, 16)" "ringCounts frameA 10 25 = (2, 0)"
  "ringCounts frameA 10 28 = (0, 16)" "ringCounts frameA 10 31 = (2, 0)"
  "ringCounts frameA 10 34 = (0, 16)"
  by (simp_all add: ringCounts_def circle_def ringStep_def readA frameA_size js_gt_def js_lt_def
      threshold_def Let_def)

lemma rawA:
  "rawFeatures frameA None =
     map (\<lambda>y. \<lparr>cand_x = 10, cand_y = y, cand_score = 16, cand_brighterCount = 0,
                cand_darkerCount = 16, cand_depth = None\<rparr>) [10, 16, 22, 28, 34]"
  by (simp add: rawFeatures_def detectGrid_def detectAt_def ringA sample_rows_46 sample_cols_22 frameA_size
      depthAt_def gridSize_def Let_def)

lemma featuresA: "extractFeatures frameA None = map dotAt [10, 16, 22, 28, 34]"
  by (simp add: extractFeatures_def rawA isObstacle_def strongCornerRule_def toFeature_def
      dotAt_def Let_def)

lemma ringB:
  "ringCounts frameB 10 10 = (0, 0)" "ringCounts frameB 10 13 = (0, 0)"
  "ringCounts frameB 10 16 = (0, 0)" "ringCounts frameB 10 19 = (0, 0)"
  "ringCounts frameB 10 22 = (0, 0)" "ringCounts frameB 10 25 = (0, 0)"
  "ringCounts frameB 10 28 = (0, 0)" "ringCounts frameB 10 31 = (0, 0)"
  "ringCounts frameB 10 34 = (0, 0)"
  by (simp_all add: ringCounts_def circle_def ringStep_def readB frameB_size js_gt_def js_lt_def
      threshold_def Let_def)

lemma featuresB: "extractFeatures frameB None = []"
  by (simp add: extractFeatures_def rawFeatures_def detectGrid_def detectAt_def ringB sample_rows_46 sample_cols_22
      frameB_size buildClusters_def Let_def)

lemma patch_range: "[-3..3] = [-3, -2, -1, 0, 1, 2, 3::int]"
  by (simp add: upto_rec1)

lemma descA:
  "computeDescriptor frameA 10 10 = dotDesc" "computeDescriptor frameA 10 16 = dotDesc"
  "computeDescriptor frameA 10 22 = dotDesc" "computeDescriptor frameA 10 28 = dotDesc"
  "computeDescriptor frameA 10 34 = dotDesc"
  unfolding computeDescriptor_def patch_range
  by (simp_all add: readA frameA_size dotDesc_def)

lemma searchB_10:
  "searchBest frameB dotDesc (dotAt 10) = Some (\<lparr>pt_x = 11, pt_y = 11\<rparr>, 0)"
  unfolding searchBest_def search_offsets searchAt_def computeDescriptor_def patch_range
  by (simp add: frameB_size dotAt_def readB dotDesc_def ssdOf_def Let_def)

lemma searchB_16:
  "searchBest frameB dotDesc (dotAt 16) = Some (\<lparr>pt_x = 11, pt_y = 11\<rparr>, 0)"
  unfolding searchBest_def search_offsets searchAt_def computeDescriptor_def patch_range
  by (simp add: frameB_size dotAt_def readB dotDesc_def ssdOf_def Let_def)

lemma searchB_22:
  "searchBest frameB dotDesc (dotAt 22) = Some (\<lparr>pt_x = 11, pt_y = 11\<rparr>, 0)"
  unfolding searchBest_def search_offsets searchAt_def computeDescriptor_def patch_range
  by (simp add: frameB_size dotAt_def readB dotDesc_def ssdOf_def Let_def)

lemma searchB_28:
  "searchBest frameB dotDesc (dotAt 28) = Some (\<lparr>pt_x = 11, pt_y = 11\<rparr>, 0)"
  unfolding searchBest_def search_offsets searchAt_def computeDescriptor_def patch_range
  by (simp add: frameB_size dotAt_def readB dotDesc_def ssdOf_def Let_def)

lemma searchB_34:
  "searchBest frameB dotDesc (dotAt 34) = Some (\<lparr>pt_x = 11, pt_y = 17\<rparr>, 0)"
  unfolding searchBest_def search_offsets searchAt_def computeDescriptor_def patch_range
  by (simp add: frameB_size dotAt_def readB dotDesc_def ssdOf_def Let_def)

lemma dotAt_fields: "feat_x (dotAt y) = 10" "feat_y (dotAt y) = y"
  by (simp_all add: dotAt_def)

lemma sampled_five: "sampledFeatures [a, b, c, d, e] = [a, b, c, d, e]"
  by (simp add: sampledFeatures_def sampleStep_def forRange_step forRange_stop)

lemma trackOne_dots:
  "trackOne frameA frameB (dotAt 10) ms
     = ms @ [\<lparr>m_prev = dotAt 10, m_curr = \<lparr>pt_x = 11, pt_y = 11\<rparr>, m_score = 0\<rparr>]"
  "trackOne frameA frameB (dotAt 16) ms
     = ms @ [\<lparr>m_prev = dotAt 16, m_curr = \<lparr>pt_x = 11, pt_y = 11\<rparr>, m_score = 0\<rparr>]"
  "trackOne frameA frameB (dotAt 22) ms
     = ms @ [\<lparr>m_prev = dotAt 22, m_curr = \<lparr>pt_x = 11, pt_y = 11\<rparr>, m_score = 0\<rparr>]"
  "trackOne frameA frameB (dotAt 28) ms
     = ms @ [\<lparr>m_prev = dotAt 28, m_curr = \<lparr>pt_x = 11, pt_y = 11\<rparr>, m_score = 0\<rparr>]"
  "trackOne frameA frameB (dotAt 34) ms
     = ms @ [\<lparr>m_prev = dotAt 34, m_curr = \<lparr>pt_x = 11, pt_y = 17\<rparr>, m_score = 0\<rparr>]"
  by (simp_all add: trackOne_def dotAt_fields descA
      searchB_10 searchB_16 searchB_22 searchB_28 searchB_34)

lemma trackAB: "trackFeatures frameA frameB [dotAt 10, dotAt 16, dotAt 22, dotAt 28, dotAt 34] = five_tracked"
  unfolding trackFeatures_def sampled_five
  by (simp add: trackOne_dots five_tracked_def)

lemma estimate_five_tracked:
  "delta_dx (estimatePose five_tracked) = - (1 / 1000)"
  "delta_dy (estimatePose five_tracked) = - (11 / 1000)"
  by (simp_all add: estimatePose_def five_tracked_def dotAt_fields pixelToMeter_def Let_def)

text \<open>
  Claim C2 asks that five correspondences be enough for the estimated delta to be applied.
  On the two five-dot frames the tracker returns exactly five correspondences and
  \<open>estimatePose\<close> gives a non-zero translation for them, but the cycle applies the zero
  delta and the pose stays where it was.
\<close>

theorem five_matches_apply_zero_delta:
  "length (cycleMatches (fst (run [Frame True frameA None] example_readings)) frameB) = 5
   \<and> delta_dx (estimatePose (cycleMatches (fst (run [Frame True frameA None] example_readings)) frameB))
       = - (1 / 1000)
   \<and> delta_dy (estimatePose (cycleMatches (fst (run [Frame True frameA None] example_readings)) frameB))
       = - (11 / 1000)
   \<and> cyclePoseDelta (fst (run [Frame True frameA None] example_readings)) frameB = zeroDelta
   \<and> poseRef (fst (run [Frame True frameA None, Frame True frameB None] example_readings))
       = poseRef (fst (run [Frame True frameA None] example_readings))"
proof -
  define s where "s = fst (run [Frame True frameA None] example_readings)"
  have s: "prevFrameRef s = Some frameA" "prevFeaturesRef s = Some (map dotAt [10, 16, 22, 28, 34])"
    unfolding s_def by (simp_all add: run_def poseRef_processSLAMFrame featuresA)
  have m: "cycleMatches s frameB = five_tracked"
    using trackAB by (simp add: cycleMatches_def s)
  have len: "length five_tracked = 5" by (simp add: five_tracked_def)
  have d: "cyclePoseDelta s frameB = zeroDelta"
    by (simp add: cyclePoseDelta_def trackingAttempted_def s m deltaOf_def len)
  have "run [Frame True frameA None, Frame True frameB None] example_readings
          = processSLAMFrame s True frameB None (snd (run [Frame True frameA None] example_readings))"
    unfolding s_def
    using run_snoc [of "[Frame True frameA None]" "Frame True frameB None" example_readings]
    by (simp add: applyEvent_Frame)
  then have p: "poseRef (fst (run [Frame True frameA None, Frame True frameB None] example_readings))
          = poseRef s"
    by (simp add: poseRef_processSLAMFrame d zeroDelta_def)
  show ?thesis
    unfolding s_def [symmetric] using m len d p estimate_five_tracked by simp
qed

end
